theory Spec2Isabelle
  imports Complex_Main "HOL-Library.Word"
begin

section \<open>Data model\<close>

text \<open>
  The Go structs of package \<open>models\<close> become records. A \<open>uuid.UUID\<close> is sixteen bytes and
  is only ever compared for equality: it is a 128-bit word. Prices, quantities and
  balances are \<open>float64\<close> in Go and \<open>DECIMAL(20, 8)\<close> in the database schema; both are
  modelled by exact real numbers, so rounding, NaN and infinities are outside this
  development. The wall-clock fields (\<open>CreatedAt\<close>, \<open>UpdatedAt\<close>, \<open>Timestamp\<close>) are left out.
\<close>

type_synonym UUID = "128 word"

record Order =
  ID :: UUID
  UserID :: UUID
  Symbol :: string
  Type :: string
  Side :: string
  Price :: real
  Quantity :: real
  Status :: string

record Balance =
  bal_UserID :: UUID
  Asset :: string
  Available :: real
  Locked :: real

section \<open>Errors\<close>

text \<open>
  A Go \<open>error\<close> made by \<open>fmt.Errorf\<close> is a message. Each message of the packages
  \<open>database\<close> and \<open>orderbook\<close> is one constructor; \<open>Error\<close> gives back its format string,
  which is what the handlers search with \<open>strings.Contains\<close>.
\<close>

datatype error =
    LockAmountNotPositive
  | ErrorLockingFunds
  | InsufficientFundsCheckFailed
  | InsufficientFundsNotFound
  | InsufficientFunds real real
  | UnlockAmountNotPositive
  | ErrorUnlockingFunds
  | FailedToUnlock real
  | BuyFillDecreaseFailed
  | BuyFillInsufficientLocked
  | BuyFillIncreaseFailed
  | SellFillDecreaseFailed
  | SellFillInsufficientLocked
  | SellFillIncreaseFailed
  | InvalidSide string
  | TxErrorGettingBalance
  | TxErrorCreatingBalance
  | ErrorCreatingOrder
  | OrderNotFoundOrDenied
  | ErrorRetrievingOrder
  | NotCancellable string
  | ErrorUpdatingOrder
  | ConcurrentModification
  | SymbolMismatch
  | OnlyLimitOrders
  | AlreadyExists
  | NotFoundInBook

fun Error :: "error \<Rightarrow> string" where
  "Error LockAmountNotPositive = ''lock amount must be positive''"
| "Error ErrorLockingFunds = ''error locking funds for user %s asset %s: %w''"
| "Error InsufficientFundsCheckFailed =
     ''insufficient funds for user %s asset %s (balance check failed: %w)''"
| "Error InsufficientFundsNotFound =
     ''insufficient funds for user %s asset %s (balance not found)''"
| "Error (InsufficientFunds a r) =
     ''insufficient funds for user %s asset %s (available: %f, required: %f)''"
| "Error UnlockAmountNotPositive = ''unlock amount must be positive''"
| "Error ErrorUnlockingFunds = ''error unlocking funds for user %s asset %s: %w''"
| "Error (FailedToUnlock r) =
     ''failed to unlock sufficient locked funds for user %s asset %s (requested: %f)''"
| "Error BuyFillDecreaseFailed = ''buy fill: failed to decrease locked %s: %w''"
| "Error BuyFillInsufficientLocked = ''buy fill: failed to decrease sufficient locked %s''"
| "Error BuyFillIncreaseFailed = ''buy fill: failed to increase available %s: %w''"
| "Error SellFillDecreaseFailed = ''sell fill: failed to decrease locked %s: %w''"
| "Error SellFillInsufficientLocked = ''sell fill: failed to decrease sufficient locked %s''"
| "Error SellFillIncreaseFailed = ''sell fill: failed to increase available %s: %w''"
| "Error (InvalidSide s) = ''invalid side for fill update: %s''"
| "Error TxErrorGettingBalance = ''tx error getting balance for user %s asset %s: %w''"
| "Error TxErrorCreatingBalance =
     ''tx error creating/scanning initial balance for user %s asset %s: %w''"
| "Error ErrorCreatingOrder = ''error creating order for user %s: %w''"
| "Error OrderNotFoundOrDenied = ''order not found or permission denied''"
| "Error ErrorRetrievingOrder = ''error retrieving order %s for cancellation: %w''"
| "Error (NotCancellable st) = ''order %s is not in a cancellable state (status: %s)''"
| "Error ErrorUpdatingOrder = ''error updating order %s status to cancelled: %w''"
| "Error ConcurrentModification =
     ''failed to update order %s status (concurrent modification?)''"
| "Error SymbolMismatch = ''order symbol %s does not match book symbol %s''"
| "Error OnlyLimitOrders = ''only limit orders can be added directly to the book''"
| "Error AlreadyExists = ''order %s already exists in the book''"
| "Error NotFoundInBook = ''order %s not found in book''"

text \<open>\<open>strings.Contains\<close>: some suffix of the text starts with the pattern.\<close>

fun Contains :: "string \<Rightarrow> string \<Rightarrow> bool" where
  "Contains [] substr = (substr = [])"
| "Contains (c # cs) substr = (take (length substr) (c # cs) = substr \<or> Contains cs substr)"

section \<open>The balance store\<close>

text \<open>
  The tables \<open>balances\<close> (primary key \<open>(user_id, asset)\<close>) and \<open>orders\<close> (primary key
  \<open>id\<close>) are finite maps. A transaction works on its own copy of the tables; the flag
  \<open>down\<close> stands for a connection that fails every statement, which is how the
  \<open>err != nil\<close> branches after \<open>Exec\<close> and \<open>QueryRow\<close> are reached.
\<close>

record database =
  balances :: "UUID \<times> string \<Rightarrow> Balance option"
  orders :: "UUID \<Rightarrow> Order option"
  down :: bool

datatype pgx_error = ErrNoRows | ConnError

text \<open>
  \<open>UPDATE balances SET ... WHERE user_id = $2 AND asset = $3 AND cond\<close>: at most one row
  has the key; the result is the number of rows affected.
\<close>

definition exec_update_balance ::
  "database \<Rightarrow> UUID \<Rightarrow> string \<Rightarrow> (Balance \<Rightarrow> bool) \<Rightarrow> (Balance \<Rightarrow> Balance)
     \<Rightarrow> pgx_error + (nat \<times> database)" where
  "exec_update_balance tx userID asset cond upd =
     (if down tx then Inl ConnError
      else case balances tx (userID, asset) of
             None \<Rightarrow> Inr (0, tx)
           | Some b \<Rightarrow>
               if cond b
               then Inr (1, tx\<lparr>balances := (balances tx)((userID, asset) \<mapsto> upd b)\<rparr>)
               else Inr (0, tx))"

text \<open>\<open>SELECT ... FROM balances WHERE user_id = $1 AND asset = $2 FOR UPDATE\<close>\<close>

definition query_balance :: "database \<Rightarrow> UUID \<Rightarrow> string \<Rightarrow> pgx_error + Balance" where
  "query_balance tx userID asset =
     (if down tx then Inl ConnError
      else case balances tx (userID, asset) of
             None \<Rightarrow> Inl ErrNoRows
           | Some b \<Rightarrow> Inr b)"

definition GetBalanceInTx :: "database \<Rightarrow> UUID \<Rightarrow> string \<Rightarrow> error + Balance option" where
  "GetBalanceInTx tx userID asset =
     (case query_balance tx userID asset of
        Inl ErrNoRows \<Rightarrow> Inr None
      | Inl ConnError \<Rightarrow> Inl TxErrorGettingBalance
      | Inr b \<Rightarrow> Inr (Some b))"

definition LockFunds :: "database \<Rightarrow> UUID \<Rightarrow> string \<Rightarrow> real \<Rightarrow> error option \<times> database" where
  "LockFunds tx userID asset amount =
     (if amount \<le> 0 then (Some LockAmountNotPositive, tx)
      else case exec_update_balance tx userID asset (\<lambda>b. Available b \<ge> amount)
                  (\<lambda>b. b\<lparr>Available := Available b - amount, Locked := Locked b + amount\<rparr>) of
             Inl err \<Rightarrow> (Some ErrorLockingFunds, tx)
           | Inr (rowsAffected, tx') \<Rightarrow>
               if rowsAffected \<noteq> 1
               then (case GetBalanceInTx tx' userID asset of
                       Inl getErr \<Rightarrow> (Some InsufficientFundsCheckFailed, tx')
                     | Inr None \<Rightarrow> (Some InsufficientFundsNotFound, tx')
                     | Inr (Some currBalance) \<Rightarrow>
                         (Some (InsufficientFunds (Available currBalance) amount), tx'))
               else (None, tx'))"


text \<open>
  The test the order handler applies to a failed lock:
  \<open>strings.Contains(err.Error(), "insufficient funds")\<close>.
\<close>

definition is_insufficient_funds :: "error \<Rightarrow> bool" where
  "is_insufficient_funds err = Contains (Error err) ''insufficient funds''"




text \<open>The sum \<open>available + locked\<close> of a balance row, when the row exists.\<close>

definition funds :: "database \<Rightarrow> UUID \<Rightarrow> string \<Rightarrow> real option" where
  "funds tx userID asset = map_option (\<lambda>b. Available b + Locked b) (balances tx (userID, asset))"

subsection \<open>Fills\<close>



subsection \<open>Orders in the database\<close>

text \<open>
  \<open>INSERT INTO orders ... RETURNING id\<close>: the id is drawn by the database
  (\<open>uuid_generate_v4()\<close>); it is the argument \<open>newID\<close>, and a draw that is already a key of
  the table violates the primary key. The table \<open>users\<close> that both tables refer to is not
  modelled: the user of a request exists.
\<close>

definition database_CreateOrder ::
  "database \<Rightarrow> UUID \<Rightarrow> Order \<Rightarrow> error option \<times> database \<times> Order" where
  "database_CreateOrder tx newID order =
     (if down tx \<or> orders tx newID \<noteq> None then (Some ErrorCreatingOrder, tx, order)
      else (None, tx\<lparr>orders := (orders tx)(newID \<mapsto> order\<lparr>ID := newID\<rparr>)\<rparr>, order\<lparr>ID := newID\<rparr>))"


text \<open>
  \<open>INSERT INTO balances ... VALUES ($1, $2, 0, 0) ON CONFLICT DO NOTHING RETURNING
  updated_at\<close>: no row comes back when the key exists.
\<close>

definition query_insert_balance :: "database \<Rightarrow> UUID \<Rightarrow> string \<Rightarrow> pgx_error + database" where
  "query_insert_balance tx userID asset =
     (if down tx then Inl ConnError
      else case balances tx (userID, asset) of
             Some b \<Rightarrow> Inl ErrNoRows
           | None \<Rightarrow>
               Inr (tx\<lparr>balances := (balances tx)((userID, asset) \<mapsto>
                       \<lparr>bal_UserID = userID, Asset = asset, Available = 0, Locked = 0\<rparr>)\<rparr>))"

definition GetOrCreateBalanceInTx ::
  "database \<Rightarrow> UUID \<Rightarrow> string \<Rightarrow> (error + Balance option) \<times> database" where
  "GetOrCreateBalanceInTx tx userID asset =
     (case GetBalanceInTx tx userID asset of
        Inl err \<Rightarrow> (Inl err, tx)
      | Inr (Some balance) \<Rightarrow> (Inr (Some balance), tx)
      | Inr None \<Rightarrow>
          (case query_insert_balance tx userID asset of
             Inl ErrNoRows \<Rightarrow> (GetBalanceInTx tx userID asset, tx)
           | Inl ConnError \<Rightarrow> (Inl TxErrorCreatingBalance, tx)
           | Inr tx1 \<Rightarrow>
               (Inr (Some \<lparr>bal_UserID = userID, Asset = asset, Available = 0, Locked = 0\<rparr>), tx1)))"

subsection \<open>Example data\<close>

definition alice :: UUID where "alice = 1"



section \<open>The order book\<close>

text \<open>
  The book holds pointers to \<open>models.Order\<close> objects: the same pointer sits in a side's
  slice and in the id index, and matching writes \<open>Quantity\<close> through it. A pointer is an
  address and \<open>mem\<close> is the memory of \<open>Order\<close> objects the pointers refer to; it is part of
  the state, so a write through one pointer is seen through every copy of it. The mutex
  makes each method run alone, so a method is a function from state to state. A nil
  pointer is not an input.
\<close>

type_synonym ptr = nat

record Trade =
  TakerOrderID :: UUID
  MakerOrderID :: UUID
  trade_Symbol :: string
  trade_Price :: real
  trade_Quantity :: real

record OrderBook =
  symbol :: string
  Bids :: "ptr list"
  Asks :: "ptr list"
  Orders :: "UUID \<Rightarrow> ptr option"
  mem :: "ptr \<Rightarrow> Order"

definition NewOrderBook :: "(ptr \<Rightarrow> Order) \<Rightarrow> string \<Rightarrow> OrderBook" where
  "NewOrderBook m name = \<lparr>symbol = name, Bids = [], Asks = [], Orders = Map.empty, mem = m\<rparr>"

text \<open>
  \<open>sort.Search(n, f)\<close> of the Go library: binary search for the least index in \<open>[0, n]\<close>
  from which \<open>f\<close> holds, for an \<open>f\<close> that is false and then true.
\<close>

function Search_loop :: "nat \<Rightarrow> nat \<Rightarrow> (nat \<Rightarrow> bool) \<Rightarrow> nat" where
  "Search_loop i j f =
     (if i < j
      then (let h = (i + j) div 2
            in if \<not> f h then Search_loop (h + 1) j f else Search_loop i h f)
      else i)"
  by pat_completeness auto
termination
  by (relation "measure (\<lambda>(i, j, f). j - i)") auto

definition Search :: "nat \<Rightarrow> (nat \<Rightarrow> bool) \<Rightarrow> nat" where
  "Search n f = Search_loop 0 n f"

text \<open>\<open>append(s, nil); copy(s[i+1:], s[i:]); s[i] = x\<close> and \<open>append(s[:i], s[i+1:]...)\<close>\<close>

definition insert_at :: "nat \<Rightarrow> 'a \<Rightarrow> 'a list \<Rightarrow> 'a list" where
  "insert_at i x xs = take i xs @ [x] @ drop i xs"

definition remove_at :: "nat \<Rightarrow> 'a list \<Rightarrow> 'a list" where
  "remove_at i xs = take i xs @ drop (i + 1) xs"

definition addBid :: "OrderBook \<Rightarrow> ptr \<Rightarrow> OrderBook" where
  "addBid ob order =
     (let i = Search (length (Bids ob))
                (\<lambda>j. Price (mem ob (Bids ob ! j)) \<le> Price (mem ob order))
      in ob\<lparr>Bids := insert_at i order (Bids ob)\<rparr>)"

definition addAsk :: "OrderBook \<Rightarrow> ptr \<Rightarrow> OrderBook" where
  "addAsk ob order =
     (let i = Search (length (Asks ob))
                (\<lambda>j. Price (mem ob (Asks ob ! j)) \<ge> Price (mem ob order))
      in ob\<lparr>Asks := insert_at i order (Asks ob)\<rparr>)"

text \<open>
  The two loops of \<open>matchOrder\<close> are the same text up to the slice they walk (\<open>Asks\<close> for an
  incoming buy, \<open>Bids\<close> for an incoming sell) and the comparison (\<open>>=\<close> or \<open><=\<close>). The flag
  \<open>buy\<close> selects both; \<open>sub_quantity ob p q\<close> is \<open>p.Quantity -= q\<close>.
\<close>

definition resting :: "bool \<Rightarrow> OrderBook \<Rightarrow> ptr list" where
  "resting buy ob = (if buy then Asks ob else Bids ob)"

definition set_resting :: "bool \<Rightarrow> ptr list \<Rightarrow> OrderBook \<Rightarrow> OrderBook" where
  "set_resting buy xs ob = (if buy then ob\<lparr>Asks := xs\<rparr> else ob\<lparr>Bids := xs\<rparr>)"

definition crosses :: "bool \<Rightarrow> real \<Rightarrow> real \<Rightarrow> bool" where
  "crosses buy incomingPrice restingPrice =
     (if buy then incomingPrice \<ge> restingPrice else incomingPrice \<le> restingPrice)"

definition sub_quantity :: "OrderBook \<Rightarrow> ptr \<Rightarrow> real \<Rightarrow> OrderBook" where
  "sub_quantity ob p q = ob\<lparr>mem := (mem ob)(p := (mem ob p)\<lparr>Quantity := Quantity (mem ob p) - q\<rparr>)\<rparr>"

function match_loop :: "bool \<Rightarrow> ptr \<Rightarrow> nat \<Rightarrow> OrderBook \<Rightarrow> Trade list \<Rightarrow> Trade list \<times> OrderBook" where
  "match_loop buy incomingOrder i ob trades =
     (if i < length (resting buy ob) \<and> Quantity (mem ob incomingOrder) > 0
      then (let r = resting buy ob ! i
            in if crosses buy (Price (mem ob incomingOrder)) (Price (mem ob r))
               then (let matchQuantity = min (Quantity (mem ob incomingOrder)) (Quantity (mem ob r));
                         trade = \<lparr>TakerOrderID = ID (mem ob incomingOrder),
                                  MakerOrderID = ID (mem ob r),
                                  trade_Symbol = symbol ob,
                                  trade_Price = Price (mem ob r),
                                  trade_Quantity = matchQuantity\<rparr>;
                         ob1 = sub_quantity ob incomingOrder matchQuantity;
                         ob2 = sub_quantity ob1 r matchQuantity
                     in if Quantity (mem ob2 r) = 0
                        then match_loop buy incomingOrder i
                               (set_resting buy (remove_at i (resting buy ob2))
                                  (ob2\<lparr>Orders := (Orders ob2)(ID (mem ob2 r) := None)\<rparr>))
                               (trades @ [trade])
                        else match_loop buy incomingOrder (i + 1) ob2 (trades @ [trade]))
               else (trades, ob))
      else (trades, ob))"
  by pat_completeness auto
termination
  by (relation "measure (\<lambda>(buy, inc, i, ob, trades). length (resting buy ob) - i)")
     (auto simp: resting_def set_resting_def sub_quantity_def remove_at_def)

definition matchOrder :: "OrderBook \<Rightarrow> ptr \<Rightarrow> Trade list \<times> OrderBook" where
  "matchOrder ob incomingOrder =
     match_loop (Side (mem ob incomingOrder) = ''buy'') incomingOrder 0 ob []"

definition AddOrder :: "OrderBook \<Rightarrow> ptr \<Rightarrow> (error + Trade list) \<times> OrderBook" where
  "AddOrder ob order =
     (if Symbol (mem ob order) \<noteq> symbol ob then (Inl SymbolMismatch, ob)
      else if Type (mem ob order) \<noteq> ''limit'' then (Inl OnlyLimitOrders, ob)
      else if Orders ob (ID (mem ob order)) \<noteq> None then (Inl AlreadyExists, ob)
      else (let ob1 = ob\<lparr>Orders := (Orders ob)(ID (mem ob order) \<mapsto> order)\<rparr>;
                (trades, ob2) = matchOrder ob1 order
            in if Quantity (mem ob2 order) > 0
               then (if Side (mem ob2 order) = ''buy''
                     then (Inr trades, addBid ob2 order)
                     else (Inr trades, addAsk ob2 order))
               else (Inr trades, ob2)))"

text \<open>
  The \<open>range\<close> loop of \<open>CancelOrder\<close>: drop the first element whose \<open>ID\<close> is the one asked
  for, and stop.
\<close>

fun remove_by_id :: "(ptr \<Rightarrow> Order) \<Rightarrow> UUID \<Rightarrow> ptr list \<Rightarrow> ptr list" where
  "remove_by_id m orderID [] = []"
| "remove_by_id m orderID (p # ps) =
     (if ID (m p) = orderID then ps else p # remove_by_id m orderID ps)"

definition CancelOrder :: "OrderBook \<Rightarrow> UUID \<Rightarrow> (error + ptr) \<times> OrderBook" where
  "CancelOrder ob orderID =
     (case Orders ob orderID of
        None \<Rightarrow> (Inl NotFoundInBook, ob)
      | Some order \<Rightarrow>
          (let ob1 = ob\<lparr>Orders := (Orders ob)(orderID := None)\<rparr>
           in if Side (mem ob1 order) = ''buy''
              then (Inr order, ob1\<lparr>Bids := remove_by_id (mem ob1) orderID (Bids ob1)\<rparr>)
              else (Inr order, ob1\<lparr>Asks := remove_by_id (mem ob1) orderID (Asks ob1)\<rparr>)))"

subsection \<open>Depth\<close>

record BookLevel =
  level_Price :: real
  level_Quantity :: real

record OrderBookDepth =
  depth_Symbol :: string
  depth_Bids :: "BookLevel list"
  depth_Asks :: "BookLevel list"

text \<open>
  A \<open>map[float64]float64\<close> is an association list with one entry per key.
  \<open>level_add\<close> is \<open>levelMap[price] += quantity\<close> (a missing key reads as 0) and
  \<open>level_get\<close> is \<open>levelMap[price]\<close>. Go ranges over a map in no fixed order; the keys are
  distinct and are sorted right after, so the order of the range does not show: the model
  takes the order of first insertion. \<open>sort.Slice\<close> with \<open>a > b\<close> is a sort on the negated
  key.
\<close>

fun level_add :: "real \<Rightarrow> real \<Rightarrow> (real \<times> real) list \<Rightarrow> (real \<times> real) list" where
  "level_add price quantity [] = [(price, 0 + quantity)]"
| "level_add price quantity ((p, q) # levelMap) =
     (if p = price then (p, q + quantity) # levelMap
      else (p, q) # level_add price quantity levelMap)"

fun level_get :: "(real \<times> real) list \<Rightarrow> real \<Rightarrow> real" where
  "level_get [] price = 0"
| "level_get ((p, q) # levelMap) price = (if p = price then q else level_get levelMap price)"

definition aggregate :: "Order list \<Rightarrow> (real \<times> real) list" where
  "aggregate os = foldl (\<lambda>levelMap x. level_add (Price x) (Quantity x) levelMap) [] os"

definition GetDepth :: "OrderBook \<Rightarrow> OrderBookDepth" where
  "GetDepth ob =
     (let levelMapBids = aggregate (map (mem ob) (Bids ob));
          bidsPrices = sort_key (\<lambda>price. - price) (map fst levelMapBids);
          levelMapAsks = aggregate (map (mem ob) (Asks ob));
          asksPrices = sort_key (\<lambda>price. price) (map fst levelMapAsks)
      in \<lparr>depth_Symbol = symbol ob,
          depth_Bids = map (\<lambda>price. \<lparr>level_Price = price,
                                      level_Quantity = level_get levelMapBids price\<rparr>) bidsPrices,
          depth_Asks = map (\<lambda>price. \<lparr>level_Price = price,
                                      level_Quantity = level_get levelMapAsks price\<rparr>) asksPrices\<rparr>)"

subsection \<open>Sequences of calls and the consistency of a book\<close>

datatype book_call = Add ptr | Cancel UUID

fun book_step :: "OrderBook \<Rightarrow> book_call \<Rightarrow> OrderBook" where
  "book_step ob (Add order) = snd (AddOrder ob order)"
| "book_step ob (Cancel orderID) = snd (CancelOrder ob orderID)"

definition book_run :: "OrderBook \<Rightarrow> book_call list \<Rightarrow> OrderBook" where
  "book_run ob calls = foldl book_step ob calls"

text \<open>
  What every book reached from a new one satisfies: no pointer rests twice, a resting
  order is indexed under its own id, the index maps an id to an order of that id, bids
  have side "buy" and asks have another side, and each side is sorted by price (bids
  descending, asks ascending).
\<close>

definition book_inv :: "OrderBook \<Rightarrow> bool" where
  "book_inv ob \<longleftrightarrow>
     distinct (Bids ob @ Asks ob)
     \<and> (\<forall>p \<in> set (Bids ob @ Asks ob). Orders ob (ID (mem ob p)) = Some p)
     \<and> (\<forall>k p. Orders ob k = Some p \<longrightarrow> ID (mem ob p) = k)
     \<and> (\<forall>p \<in> set (Bids ob). Side (mem ob p) = ''buy'')
     \<and> (\<forall>p \<in> set (Asks ob). Side (mem ob p) \<noteq> ''buy'')
     \<and> sorted_wrt (\<lambda>p q. Price (mem ob p) \<ge> Price (mem ob q)) (Bids ob)
     \<and> sorted_wrt (\<lambda>p q. Price (mem ob p) \<le> Price (mem ob q)) (Asks ob)"

text \<open>
  The trades the matching rule of the specification asks for, from the incoming order's
  id, price and remaining quantity and the resting orders in book order: while quantity
  remains and the next resting order crosses, trade the smaller of the two remaining
  quantities at the resting order's price.
\<close>

fun expected_trades ::
  "bool \<Rightarrow> string \<Rightarrow> UUID \<Rightarrow> real \<Rightarrow> real \<Rightarrow> Order list \<Rightarrow> Trade list" where
  "expected_trades buy name taker price remaining [] = []"
| "expected_trades buy name taker price remaining (r # rs) =
     (if remaining > 0 \<and> crosses buy price (Price r)
      then \<lparr>TakerOrderID = taker, MakerOrderID = ID r, trade_Symbol = name,
            trade_Price = Price r, trade_Quantity = min remaining (Quantity r)\<rparr>
           # expected_trades buy name taker price (remaining - min remaining (Quantity r)) rs
      else [])"

subsection \<open>One turn of the matching loop\<close>

text \<open>
  Names for the parts of one turn of \<open>match_loop\<close>: whether the order at index \<open>i\<close> can be
  matched, the trade that is then appended, and the state after the two writes to
  \<open>Quantity\<close>. \<open>match_inv\<close> is what holds of the book while an incoming order is being
  matched: the order is indexed but rests on no side yet.
\<close>

definition filled :: "bool \<Rightarrow> ptr \<Rightarrow> nat \<Rightarrow> OrderBook \<Rightarrow> OrderBook" where
  "filled buy inc i ob =
     sub_quantity
       (sub_quantity ob inc (min (Quantity (mem ob inc)) (Quantity (mem ob (resting buy ob ! i)))))
       (resting buy ob ! i)
       (min (Quantity (mem ob inc)) (Quantity (mem ob (resting buy ob ! i))))"

definition trade_at :: "bool \<Rightarrow> ptr \<Rightarrow> nat \<Rightarrow> OrderBook \<Rightarrow> Trade" where
  "trade_at buy inc i ob =
     \<lparr>TakerOrderID = ID (mem ob inc), MakerOrderID = ID (mem ob (resting buy ob ! i)),
      trade_Symbol = symbol ob, trade_Price = Price (mem ob (resting buy ob ! i)),
      trade_Quantity = min (Quantity (mem ob inc)) (Quantity (mem ob (resting buy ob ! i)))\<rparr>"

definition can_match :: "bool \<Rightarrow> ptr \<Rightarrow> nat \<Rightarrow> OrderBook \<Rightarrow> bool" where
  "can_match buy inc i ob \<longleftrightarrow>
     i < length (resting buy ob) \<and> 0 < Quantity (mem ob inc)
     \<and> crosses buy (Price (mem ob inc)) (Price (mem ob (resting buy ob ! i)))"

definition match_inv :: "ptr \<Rightarrow> OrderBook \<Rightarrow> bool" where
  "match_inv inc ob \<longleftrightarrow>
     book_inv ob \<and> inc \<notin> set (Bids ob @ Asks ob) \<and> Orders ob (ID (mem ob inc)) = Some inc"

subsection \<open>Example orders\<close>

definition limit_order :: "UUID \<Rightarrow> string \<Rightarrow> real \<Rightarrow> real \<Rightarrow> Order" where
  "limit_order i sd p q =
     \<lparr>ID = i, UserID = alice, Symbol = ''BTC-USD'', Type = ''limit'', Side = sd,
      Price = p, Quantity = q, Status = ''open''\<rparr>"

definition example_mem :: "ptr \<Rightarrow> Order" where
  "example_mem =
     (\<lambda>p. limit_order 0 ''sell'' 0 0)
       (1 := limit_order 1 ''buy'' 100 1,
        2 := limit_order 2 ''buy'' 100 2,
        3 := limit_order 3 ''sell'' 99 1.5,
        4 := limit_order 4 ''sell'' 100 1,
        5 := limit_order 5 ''buy'' 101 1,
        6 := limit_order 6 ''buy'' 100 3,
        7 := limit_order 7 ''sell'' 99 4)"

definition empty_book :: OrderBook where
  "empty_book = NewOrderBook example_mem ''BTC-USD''"

definition two_bids_book :: OrderBook where
  "two_bids_book = snd (AddOrder (snd (AddOrder empty_book 1)) 2)"

definition one_ask_book :: OrderBook where
  "one_ask_book = snd (AddOrder empty_book 4)"


section \<open>The order handlers\<close>

text \<open>
  \<open>strings.ToUpper\<close>, \<open>ToLower\<close>, \<open>TrimSpace\<close> and \<open>Split\<close> on ASCII text (a \<open>string\<close> is a
  list of bytes; what Go does on other Unicode letters and spaces is outside the model).
  \<open>Split\<close> is only called with the separator "-", a single character.
\<close>

definition ToUpper :: "string \<Rightarrow> string" where
  "ToUpper s = map (\<lambda>c. let n = (of_char c :: nat)
                         in if 97 \<le> n \<and> n \<le> 122 then char_of (n - 32) else c) s"

definition ToLower :: "string \<Rightarrow> string" where
  "ToLower s = map (\<lambda>c. let n = (of_char c :: nat)
                         in if 65 \<le> n \<and> n \<le> 90 then char_of (n + 32) else c) s"

definition is_space :: "char \<Rightarrow> bool" where
  "is_space c = (let n = (of_char c :: nat) in (9 \<le> n \<and> n \<le> 13) \<or> n = 32)"

definition TrimSpace :: "string \<Rightarrow> string" where
  "TrimSpace s = rev (dropWhile is_space (rev (dropWhile is_space s)))"

fun Split :: "string \<Rightarrow> char \<Rightarrow> string list" where
  "Split [] sep = [[]]"
| "Split (c # cs) sep =
     (if c = sep then [] # Split cs sep
      else (case Split cs sep of [] \<Rightarrow> [[c]] | part # parts \<Rightarrow> (c # part) # parts))"

record CreateOrderRequest =
  req_Symbol :: string
  req_Type :: string
  req_Side :: string
  req_Price :: real
  req_Quantity :: real

datatype status =
    StatusOK | StatusCreated | StatusBadRequest | StatusUnauthorized | StatusNotFound
  | StatusInternalServerError | StatusNotImplemented

datatype response = JSONError status string | JSONOrder status Order | JSONMessage status string
  | Panic

text \<open>
  The handlers, from the request to the commit. \<open>user\<close> is \<open>c.Locals("userID")\<close> and
  \<open>body\<close> the parsed request, \<open>None\<close> when the read fails. A transaction starts from the
  committed tables; every return before \<open>Commit\<close> runs the deferred \<open>Rollback\<close>, so the
  committed tables are then the ones the handler was called with. After the commit the
  handlers hand the order to the order book (\<open>SubmitOrder\<close>, \<open>Manager.CancelOrder\<close>); that
  call changes the book only and its error is only logged, so it is not part of these
  functions. Messages that embed an error text or an asset name keep the format verb,
  the quotation marks inside two messages are left out, and an index past the end of
  \<open>parts\<close> is Go's run-time panic.
\<close>

text \<open>The request after the handler has trimmed and re-cased its three text fields.\<close>

definition normalised :: "CreateOrderRequest \<Rightarrow> CreateOrderRequest" where
  "normalised req0 = req0\<lparr>req_Symbol := ToUpper (TrimSpace (req_Symbol req0)),
                    req_Type := ToLower (TrimSpace (req_Type req0)),
                    req_Side := ToLower (TrimSpace (req_Side req0))\<rparr>"

definition handlers_CreateOrder ::
  "database \<Rightarrow> UUID option \<Rightarrow> CreateOrderRequest option \<Rightarrow> UUID \<Rightarrow> response \<times> database" where
  "handlers_CreateOrder db user body newID =
     (case user of
        None \<Rightarrow> (JSONError StatusUnauthorized ''Invalid user ID in token'', db)
      | Some userID \<Rightarrow>
     (case body of
        None \<Rightarrow> (JSONError StatusBadRequest ''Cannot parse request body'', db)
      | Some req0 \<Rightarrow>
     (let req = req0\<lparr>req_Symbol := ToUpper (TrimSpace (req_Symbol req0)),
                    req_Type := ToLower (TrimSpace (req_Type req0)),
                    req_Side := ToLower (TrimSpace (req_Side req0))\<rparr>
      in if req_Symbol req = [] \<or> req_Quantity req \<le> 0
         then (JSONError StatusBadRequest ''Symbol and positive quantity are required'', db)
         else (let parts = Split (req_Symbol req) CHR ''-''
      in if length parts \<noteq> 2 \<or> parts ! 0 = [] \<or> parts ! 1 = []
         then (JSONError StatusBadRequest ''Invalid symbol format, expected BASE-QUOTE'', db)
         else (let baseAsset = parts ! 0; quoteAsset = parts ! 1
      in if req_Side req \<noteq> ''buy'' \<and> req_Side req \<noteq> ''sell''
         then (JSONError StatusBadRequest ''Invalid side, must be buy or sell'', db)
         else if req_Type req \<noteq> ''limit'' \<and> req_Type req \<noteq> ''market''
         then (JSONError StatusBadRequest ''Invalid type, must be limit or market'', db)
         else if req_Type req = ''limit'' \<and> req_Price req \<le> 0
         then (JSONError StatusBadRequest ''Positive price is required for limit orders'', db)
         else (let order = \<lparr>ID = 0, UserID = userID, Symbol = req_Symbol req,
                            Type = req_Type req, Side = req_Side req,
                            Price = (if req_Type req = ''limit'' then req_Price req else 0),
                            Quantity = req_Quantity req, Status = ''open''\<rparr>
      in if down db
         then (JSONError StatusInternalServerError ''Database error starting transaction'', db)
         else (let tx = db
      in if req_Side req = ''buy'' \<and> req_Type req \<noteq> ''limit''
         then (JSONError StatusNotImplemented ''Market buy orders are not yet supported'', db)
         else (let lockAsset = (if req_Side req = ''buy'' then quoteAsset else baseAsset);
                   lockAmount = (if req_Side req = ''buy'' then req_Price req * req_Quantity req
                                 else req_Quantity req)
      in case GetOrCreateBalanceInTx tx userID lockAsset of
           (Inl err, tx1) \<Rightarrow>
             (JSONError StatusInternalServerError ''Database error accessing %s balance'', db)
         | (Inr balance, tx1) \<Rightarrow>
      (case LockFunds tx1 userID lockAsset lockAmount of
           (Some err, tx2) \<Rightarrow>
             (JSONError StatusBadRequest
                (if Contains (Error err) ''insufficient funds''
                 then ''Insufficient %s balance to place order''
                 else ''Failed to lock funds: %s''), db)
         | (None, tx2) \<Rightarrow>
      (case database_CreateOrder tx2 newID order of
           (Some err, tx3, order') \<Rightarrow>
             (JSONError StatusInternalServerError ''Failed to save order after locking funds'', db)
         | (None, tx3, order') \<Rightarrow>
             if down tx3
             then (JSONError StatusInternalServerError ''Database error finalizing order'', db)
             else (JSONOrder StatusCreated order', tx3)))))))))))"


section \<open>Settlement\<close>

text \<open>
  \<open>Manager.processTrades\<close>, the only consumer of the trades of a match: its loop logs each
  trade and does nothing else, so the database it runs beside is unchanged.
\<close>

definition processTrades :: "database \<Rightarrow> Trade list \<Rightarrow> database" where
  "processTrades db trades = foldl (\<lambda>d trade. d) db trades"

subsection \<open>Example requests and balances\<close>




section \<open>Properties of the balance store\<close>

lemma exec_update_balance_down [simp]:
  "down tx \<Longrightarrow> exec_update_balance tx u a c f = Inl ConnError"
  by (simp add: exec_update_balance_def)

lemma is_insufficient_funds_simps [simp]:
  "is_insufficient_funds InsufficientFundsNotFound"
  "is_insufficient_funds (InsufficientFunds av rq)"
  "is_insufficient_funds InsufficientFundsCheckFailed"
  "\<not> is_insufficient_funds LockAmountNotPositive"
  "\<not> is_insufficient_funds ErrorLockingFunds"
  by (simp_all add: is_insufficient_funds_def)









section \<open>Properties of the order book\<close>

subsection \<open>Binary search\<close>

declare Search_loop.simps [simp del]
declare match_loop.simps [simp del]

lemma Search_loop_spec:
  assumes "\<forall>a b. a \<le> b \<and> b < n \<and> f a \<longrightarrow> f b"
    and "i \<le> j" and "j \<le> n"
    and "\<forall>a<i. \<not> f a" and "\<forall>a. j \<le> a \<and> a < n \<longrightarrow> f a"
  shows "i \<le> Search_loop i j f \<and> Search_loop i j f \<le> j
         \<and> (\<forall>a < Search_loop i j f. \<not> f a)
         \<and> (\<forall>a. Search_loop i j f \<le> a \<and> a < n \<longrightarrow> f a)"
  using assms
proof (induction i j f rule: Search_loop.induct)
  case (1 i j f)
  note mono = "1.prems"(1)
  show ?case
  proof (cases "i < j")
    case False
    then have "Search_loop i j f = i"
      by (subst Search_loop.simps) simp
    moreover have "i = j" using False "1.prems"(2) by simp
    ultimately show ?thesis using "1.prems"(4,5) by simp
  next
    case True
    define h where "h = (i + j) div 2"
    have h1: "i \<le> h" and h2: "h < j" using True by (simp_all add: h_def)
    have hn: "h < n" using h2 "1.prems"(3) by simp
    show ?thesis
    proof (cases "f h")
      case False
      have new: "\<forall>a<h + 1. \<not> f a"
      proof (intro allI impI)
        fix a assume "a < h + 1"
        then have "a \<le> h" by simp
        then show "\<not> f a" using False mono hn by blast
      qed
      have eq: "Search_loop i j f = Search_loop (h + 1) j f"
        by (subst Search_loop.simps) (use True False in \<open>simp add: h_def [symmetric] Let_def\<close>)
      have le: "h + 1 \<le> j" using h2 by simp
      note IH = "1.IH"(1) [OF True h_def False mono le "1.prems"(3) new "1.prems"(5)]
      have "i \<le> Search_loop (h + 1) j f" using IH h1 by linarith
      then show ?thesis unfolding eq using IH by blast
    next
      case fh: True
      have new: "\<forall>a. h \<le> a \<and> a < n \<longrightarrow> f a"
        using fh mono by blast
      have eq: "Search_loop i j f = Search_loop i h f"
        by (subst Search_loop.simps) (use True fh in \<open>simp add: h_def [symmetric] Let_def\<close>)
      have hn': "h \<le> n" using hn by simp
      have nn: "\<not> \<not> f h" using fh by simp
      note IH = "1.IH"(2) [OF True h_def nn mono h1 hn' "1.prems"(4) new]
      have "Search_loop i h f \<le> j" using IH h2 by linarith
      then show ?thesis unfolding eq using IH by blast
    qed
  qed
qed

lemma Search_spec:
  assumes "\<forall>a b. a \<le> b \<and> b < n \<and> f a \<longrightarrow> f b"
  shows "Search n f \<le> n \<and> (\<forall>a < Search n f. \<not> f a) \<and> (\<forall>a. Search n f \<le> a \<and> a < n \<longrightarrow> f a)"
proof -
  have "0 \<le> Search_loop 0 n f \<and> Search_loop 0 n f \<le> n
         \<and> (\<forall>a < Search_loop 0 n f. \<not> f a)
         \<and> (\<forall>a. Search_loop 0 n f \<le> a \<and> a < n \<longrightarrow> f a)"
  proof (rule Search_loop_spec [where n = n])
    show "\<forall>a b. a \<le> b \<and> b < n \<and> f a \<longrightarrow> f b" by (rule assms)
    show "\<forall>a. n \<le> a \<and> a < n \<longrightarrow> f a" by (simp add: not_less [symmetric])
  qed simp_all
  then show ?thesis unfolding Search_def by blast
qed

subsection \<open>Slices\<close>

lemma set_insert_at: "i \<le> length xs \<Longrightarrow> set (insert_at i x xs) = insert x (set xs)"
proof -
  assume "i \<le> length xs"
  have "set (take i xs) \<union> set (drop i xs) = set xs"
    by (metis append_take_drop_id set_append)
  then show ?thesis by (auto simp: insert_at_def)
qed

lemma distinct_insert_at:
  "distinct xs \<Longrightarrow> x \<notin> set xs \<Longrightarrow> distinct (insert_at i x xs)"
proof -
  assume d: "distinct xs" and x: "x \<notin> set xs"
  have "distinct (take i xs @ drop i xs)" using d by simp
  then have "distinct (take i xs)" "distinct (drop i xs)" "set (take i xs) \<inter> set (drop i xs) = {}"
    by (simp_all only: distinct_append)
  moreover have "x \<notin> set (take i xs)" "x \<notin> set (drop i xs)"
    using x by (auto dest: in_set_takeD in_set_dropD)
  ultimately show ?thesis by (auto simp: insert_at_def)
qed

lemma set_remove_at_subset: "set (remove_at i xs) \<subseteq> set xs"
  by (auto simp: remove_at_def dest: in_set_takeD in_set_dropD)

lemma remove_at_split:
  "i < length xs \<Longrightarrow> xs = take i xs @ xs ! i # drop (Suc i) xs"
  by (rule id_take_nth_drop)

lemma distinct_remove_at:
  assumes "distinct xs" and "i < length xs"
  shows "distinct (remove_at i xs) \<and> xs ! i \<notin> set (remove_at i xs)"
proof -
  have "distinct (take i xs @ xs ! i # drop (Suc i) xs)"
    using assms remove_at_split [of i xs] by simp
  then show ?thesis by (auto simp: remove_at_def)
qed

lemma sorted_wrt_remove_at:
  assumes "sorted_wrt R xs"
  shows "sorted_wrt R (remove_at i xs)"
proof (cases "i < length xs")
  case True
  have "sorted_wrt R (take i xs @ xs ! i # drop (Suc i) xs)"
    using assms remove_at_split [OF True] by simp
  then show ?thesis by (auto simp: remove_at_def sorted_wrt_append)
next
  case False
  then show ?thesis using assms by (simp add: remove_at_def)
qed


lemma take_remove_at: "i \<le> length xs \<Longrightarrow> take i (remove_at i xs) = take i xs"
  by (simp add: remove_at_def)

lemma insert_at_sorted_desc:
  fixes key :: "'a \<Rightarrow> real"
  assumes "sorted_wrt (\<lambda>p q. key p \<ge> key q) xs"
  shows "sorted_wrt (\<lambda>p q. key p \<ge> key q)
           (insert_at (Search (length xs) (\<lambda>j. key (xs ! j) \<le> key x)) x xs)"
proof -
  define n where "n = length xs"
  define f where "f = (\<lambda>j. key (xs ! j) \<le> key x)"
  define k where "k = Search n f"
  have nth: "\<And>a b. a < b \<Longrightarrow> b < n \<Longrightarrow> key (xs ! a) \<ge> key (xs ! b)"
    using assms unfolding n_def by (simp add: sorted_wrt_iff_nth_less)
  have mono: "\<forall>a b. a \<le> b \<and> b < n \<and> f a \<longrightarrow> f b"
  proof (intro allI impI)
    fix a b assume h: "a \<le> b \<and> b < n \<and> f a"
    show "f b"
    proof (cases "a = b")
      case True with h show ?thesis by simp
    next
      case False
      with h have "a < b" by simp
      then have "key (xs ! b) \<le> key (xs ! a)" using nth h by simp
      with h show ?thesis unfolding f_def by simp
    qed
  qed
  note sp = Search_spec [OF mono, folded k_def]
  have kn: "k \<le> n" using sp by simp
  have before: "\<And>y. y \<in> set (take k xs) \<Longrightarrow> key y > key x"
  proof -
    fix y assume "y \<in> set (take k xs)"
    then obtain a where a: "a < k" "y = xs ! a"
      using kn unfolding n_def by (auto simp: in_set_conv_nth)
    then have "\<not> f a" using sp by simp
    then show "key y > key x" using a unfolding f_def by simp
  qed
  have after: "\<And>y. y \<in> set (drop k xs) \<Longrightarrow> key y \<le> key x"
  proof -
    fix y assume "y \<in> set (drop k xs)"
    then obtain b where b: "b < n - k" "y = xs ! (k + b)"
      using kn unfolding n_def by (auto simp: in_set_conv_nth)
    then have "f (k + b)" using sp by simp
    then show "key y \<le> key x" using b unfolding f_def by simp
  qed
  have s: "sorted_wrt (\<lambda>p q. key p \<ge> key q) (take k xs @ drop k xs)"
    using assms by simp
  have "sorted_wrt (\<lambda>p q. key p \<ge> key q) (take k xs @ [x] @ drop k xs)"
    using s before after by (fastforce simp: sorted_wrt_append)
  then show ?thesis unfolding insert_at_def k_def n_def f_def .
qed

lemma insert_at_sorted_asc:
  fixes key :: "'a \<Rightarrow> real"
  assumes "sorted_wrt (\<lambda>p q. key p \<le> key q) xs"
  shows "sorted_wrt (\<lambda>p q. key p \<le> key q)
           (insert_at (Search (length xs) (\<lambda>j. key (xs ! j) \<ge> key x)) x xs)"
  using insert_at_sorted_desc [of "\<lambda>p. - key p" xs x] assms by simp

lemma Search_le: "Search_loop i j f \<le> max i j"
proof (induction i j f rule: Search_loop.induct)
  case (1 i j f)
  show ?case
  proof (cases "i < j")
    case False
    then show ?thesis by (subst Search_loop.simps) simp
  next
    case True
    define h where "h = (i + j) div 2"
    have h: "i \<le> h" "h < j" using True by (simp_all add: h_def)
    show ?thesis
    proof (cases "f h")
      case False
      have "Search_loop i j f = Search_loop (h + 1) j f"
        by (subst Search_loop.simps) (use True False in \<open>simp add: h_def [symmetric] Let_def\<close>)
      moreover have "Search_loop (h + 1) j f \<le> max (h + 1) j"
        using "1.IH"(1) [OF True h_def False] .
      ultimately show ?thesis using h by simp
    next
      case fh: True
      have nn: "\<not> \<not> f h" using fh by simp
      have "Search_loop i j f = Search_loop i h f"
        by (subst Search_loop.simps) (use True fh in \<open>simp add: h_def [symmetric] Let_def\<close>)
      moreover have "Search_loop i h f \<le> max i h"
        using "1.IH"(2) [OF True h_def nn] .
      ultimately show ?thesis using h by simp
    qed
  qed
qed

lemma Search_le_length: "Search n f \<le> n"
  using Search_le [of 0 n f] by (simp add: Search_def)

subsection \<open>The matching loop, turn by turn\<close>

lemma match_loop_stop:
  "\<not> can_match buy inc i ob \<Longrightarrow> match_loop buy inc i ob trades = (trades, ob)"
  by (subst match_loop.simps) (auto simp: can_match_def Let_def)

lemma match_loop_remove:
  assumes "can_match buy inc i ob"
    and "Quantity (mem (filled buy inc i ob) (resting buy ob ! i)) = 0"
  shows "match_loop buy inc i ob trades =
           match_loop buy inc i
             (set_resting buy (remove_at i (resting buy (filled buy inc i ob)))
                ((filled buy inc i ob)\<lparr>Orders := (Orders (filled buy inc i ob))
                   (ID (mem (filled buy inc i ob) (resting buy ob ! i)) := None)\<rparr>))
             (trades @ [trade_at buy inc i ob])"
  by (subst match_loop.simps)
     (use assms in \<open>simp add: can_match_def Let_def filled_def [symmetric] trade_at_def [symmetric]\<close>)

lemma match_loop_keep:
  assumes "can_match buy inc i ob"
    and "Quantity (mem (filled buy inc i ob) (resting buy ob ! i)) \<noteq> 0"
  shows "match_loop buy inc i ob trades =
           match_loop buy inc (i + 1) (filled buy inc i ob) (trades @ [trade_at buy inc i ob])"
  by (subst match_loop.simps)
     (use assms in \<open>simp add: can_match_def Let_def filled_def [symmetric] trade_at_def [symmetric]\<close>)

lemma match_loop_induct [consumes 0, case_names stop remove keep]:
  assumes stop: "\<And>buy inc i ob trades. \<not> can_match buy inc i ob \<Longrightarrow> P buy inc i ob trades"
    and remove: "\<And>buy inc i ob trades.
        can_match buy inc i ob \<Longrightarrow>
        Quantity (mem (filled buy inc i ob) (resting buy ob ! i)) = 0 \<Longrightarrow>
        P buy inc i
          (set_resting buy (remove_at i (resting buy (filled buy inc i ob)))
             ((filled buy inc i ob)\<lparr>Orders := (Orders (filled buy inc i ob))
                (ID (mem (filled buy inc i ob) (resting buy ob ! i)) := None)\<rparr>))
          (trades @ [trade_at buy inc i ob]) \<Longrightarrow>
        P buy inc i ob trades"
    and keep: "\<And>buy inc i ob trades.
        can_match buy inc i ob \<Longrightarrow>
        Quantity (mem (filled buy inc i ob) (resting buy ob ! i)) \<noteq> 0 \<Longrightarrow>
        P buy inc (i + 1) (filled buy inc i ob) (trades @ [trade_at buy inc i ob]) \<Longrightarrow>
        P buy inc i ob trades"
  shows "P buy inc i ob trades"
proof (induction buy inc i ob trades rule: match_loop.induct)
  case (1 buy inc i ob trades)
  show ?case
  proof (cases "can_match buy inc i ob")
    case False
    then show ?thesis by (rule stop)
  next
    case True
    then have c1: "i < length (resting buy ob) \<and> 0 < Quantity (mem ob inc)"
      and c2: "crosses buy (Price (mem ob inc)) (Price (mem ob (resting buy ob ! i)))"
      by (simp_all add: can_match_def)
    show ?thesis
    proof (cases "Quantity (mem (filled buy inc i ob) (resting buy ob ! i)) = 0")
      case z: True
      show ?thesis
        by (rule remove [OF True z])
           (rule "1.IH"(1) [OF c1 refl c2 refl refl refl refl, folded filled_def trade_at_def, OF z])
    next
      case nz: False
      show ?thesis
        by (rule keep [OF True nz])
           (rule "1.IH"(2) [OF c1 refl c2 refl refl refl refl, folded filled_def trade_at_def, OF nz])
    qed
  qed
qed

subsection \<open>Writes to Quantity\<close>

lemma sub_quantity_fields [simp]:
  "Bids (sub_quantity ob p q) = Bids ob"
  "Asks (sub_quantity ob p q) = Asks ob"
  "Orders (sub_quantity ob p q) = Orders ob"
  "symbol (sub_quantity ob p q) = symbol ob"
  "resting buy (sub_quantity ob p q) = resting buy ob"
  by (simp_all add: sub_quantity_def resting_def)

lemma sub_quantity_mem [simp]:
  "ID (mem (sub_quantity ob p q) x) = ID (mem ob x)"
  "Side (mem (sub_quantity ob p q) x) = Side (mem ob x)"
  "Price (mem (sub_quantity ob p q) x) = Price (mem ob x)"
  "Symbol (mem (sub_quantity ob p q) x) = Symbol (mem ob x)"
  "Type (mem (sub_quantity ob p q) x) = Type (mem ob x)"
  "Quantity (mem (sub_quantity ob p q) x) =
     (if x = p then Quantity (mem ob p) - q else Quantity (mem ob x))"
  by (simp_all add: sub_quantity_def)

lemma book_inv_sub_quantity [simp]: "book_inv (sub_quantity ob p q) = book_inv ob"
  by (simp add: book_inv_def)

lemma set_resting_fields [simp]:
  "resting buy (set_resting buy xs ob) = xs"
  "resting (\<not> buy) (set_resting buy xs ob) = resting (\<not> buy) ob"
  "Orders (set_resting buy xs ob) = Orders ob"
  "mem (set_resting buy xs ob) = mem ob"
  "symbol (set_resting buy xs ob) = symbol ob"
  by (simp_all add: set_resting_def resting_def)

lemma resting_Orders_update [simp]: "resting buy (ob\<lparr>Orders := m\<rparr>) = resting buy ob"
  by (simp add: resting_def)

text \<open>The book invariant, read through the side a match walks and the other one.\<close>

lemma book_inv_resting:
  "book_inv ob \<longleftrightarrow>
     distinct (resting buy ob @ resting (\<not> buy) ob)
     \<and> (\<forall>p \<in> set (resting buy ob @ resting (\<not> buy) ob). Orders ob (ID (mem ob p)) = Some p)
     \<and> (\<forall>k p. Orders ob k = Some p \<longrightarrow> ID (mem ob p) = k)
     \<and> (\<forall>p \<in> set (resting buy ob). (Side (mem ob p) = ''buy'') = (\<not> buy))
     \<and> (\<forall>p \<in> set (resting (\<not> buy) ob). (Side (mem ob p) = ''buy'') = buy)
     \<and> sorted_wrt (\<lambda>p q. crosses buy (Price (mem ob q)) (Price (mem ob p))) (resting buy ob)
     \<and> sorted_wrt (\<lambda>p q. crosses (\<not> buy) (Price (mem ob q)) (Price (mem ob p))) (resting (\<not> buy) ob)"
  by (cases buy) (auto simp: book_inv_def resting_def crosses_def)

lemma match_inv_sub_quantity [simp]: "match_inv inc (sub_quantity ob p q) = match_inv inc ob"
  by (simp add: match_inv_def)

lemma match_inv_resting:
  "match_inv inc ob \<longleftrightarrow>
     book_inv ob \<and> inc \<notin> set (resting buy ob @ resting (\<not> buy) ob)
     \<and> Orders ob (ID (mem ob inc)) = Some inc"
  by (cases buy) (auto simp: match_inv_def resting_def)

lemma match_inv_remove:
  assumes inv: "match_inv inc ob" and i: "i < length (resting buy ob)"
  shows "match_inv inc
           (set_resting buy (remove_at i (resting buy ob))
              (ob\<lparr>Orders := (Orders ob)(ID (mem ob (resting buy ob ! i)) := None)\<rparr>))"
proof -
  define xs where "xs = resting buy ob"
  define ys where "ys = resting (\<not> buy) ob"
  define r where "r = xs ! i"
  define ob' where "ob' = set_resting buy (remove_at i xs) (ob\<lparr>Orders := (Orders ob)(ID (mem ob r) := None)\<rparr>)"
  note b = inv [unfolded match_inv_resting [of inc ob buy] book_inv_resting [of ob buy], folded xs_def ys_def]
  have rin: "r \<in> set xs" using i unfolding r_def xs_def by simp
  have d: "distinct (xs @ ys)" using b by blast
  have idx: "\<And>p. p \<in> set (xs @ ys) \<Longrightarrow> Orders ob (ID (mem ob p)) = Some p" using b by blast
  have key: "\<And>k p. Orders ob k = Some p \<Longrightarrow> ID (mem ob p) = k" using b by blast
  have dr: "distinct (remove_at i xs)" "r \<notin> set (remove_at i xs)"
    using distinct_remove_at [of xs i] d i unfolding r_def xs_def by simp_all
  have sub: "set (remove_at i xs) \<subseteq> set xs" by (rule set_remove_at_subset)
  have rys: "r \<notin> set ys" using d rin by auto
  have rest [simp]: "resting buy ob' = remove_at i xs" "resting (\<not> buy) ob' = ys"
    "mem ob' = mem ob" "Orders ob' = (Orders ob)(ID (mem ob r) := None)"
    by (simp_all add: ob'_def ys_def)
  have other: "\<And>p. p \<in> set (remove_at i xs @ ys) \<Longrightarrow> ID (mem ob p) \<noteq> ID (mem ob r)"
  proof
    fix p assume p: "p \<in> set (remove_at i xs @ ys)" and e: "ID (mem ob p) = ID (mem ob r)"
    have "p \<in> set (xs @ ys)" using p sub by auto
    then have "Orders ob (ID (mem ob p)) = Some p" by (rule idx)
    then have "Orders ob (ID (mem ob r)) = Some p" unfolding e .
    moreover have "Orders ob (ID (mem ob r)) = Some r" using idx rin by simp
    ultimately have "p = r" by simp
    then show False using p dr rys by auto
  qed
  have incr: "ID (mem ob inc) \<noteq> ID (mem ob r)"
  proof
    assume e: "ID (mem ob inc) = ID (mem ob r)"
    have "Orders ob (ID (mem ob r)) = Some r" using idx rin by simp
    moreover have "Orders ob (ID (mem ob inc)) = Some inc" using b by blast
    then have "Orders ob (ID (mem ob r)) = Some inc" unfolding e .
    ultimately have "inc = r" by simp
    then show False using b rin by auto
  qed
  have 1: "distinct (remove_at i xs @ ys)" using d dr sub by auto
  have 2: "\<forall>p \<in> set (remove_at i xs @ ys). Orders ob' (ID (mem ob' p)) = Some p"
  proof
    fix p assume p: "p \<in> set (remove_at i xs @ ys)"
    then have "p \<in> set (xs @ ys)" using sub by auto
    then show "Orders ob' (ID (mem ob' p)) = Some p" using other [OF p] idx by simp
  qed
  have 3: "\<forall>k p. Orders ob' k = Some p \<longrightarrow> ID (mem ob' p) = k"
    using key by (simp split: if_splits)
  have 4: "\<forall>p \<in> set (remove_at i xs). (Side (mem ob' p) = ''buy'') = (\<not> buy)"
    using b sub by auto
  have 5: "\<forall>p \<in> set ys. (Side (mem ob' p) = ''buy'') = buy"
    using b by auto
  have 6: "sorted_wrt (\<lambda>p q. crosses buy (Price (mem ob' q)) (Price (mem ob' p))) (remove_at i xs)"
    using b by (simp add: sorted_wrt_remove_at)
  have 7: "sorted_wrt (\<lambda>p q. crosses (\<not> buy) (Price (mem ob' q)) (Price (mem ob' p))) ys"
    using b by simp
  have 8: "inc \<notin> set (remove_at i xs @ ys)" using b sub by auto
  have 9: "Orders ob' (ID (mem ob' inc)) = Some inc" using b incr by simp
  have "match_inv inc ob'"
    unfolding match_inv_resting [of inc ob' buy] book_inv_resting [of ob' buy] rest(1,2)
    using 1 2 3 4 5 6 7 8 9 by blast
  then show ?thesis unfolding ob'_def r_def xs_def .
qed


lemma filled_fields [simp]:
  "Bids (filled buy inc i ob) = Bids ob"
  "Asks (filled buy inc i ob) = Asks ob"
  "Orders (filled buy inc i ob) = Orders ob"
  "symbol (filled buy inc i ob) = symbol ob"
  "resting b (filled buy inc i ob) = resting b ob"
  "ID (mem (filled buy inc i ob) x) = ID (mem ob x)"
  "Side (mem (filled buy inc i ob) x) = Side (mem ob x)"
  "Price (mem (filled buy inc i ob) x) = Price (mem ob x)"
  "Symbol (mem (filled buy inc i ob) x) = Symbol (mem ob x)"
  "Type (mem (filled buy inc i ob) x) = Type (mem ob x)"
  "match_inv inc' (filled buy inc i ob) = match_inv inc' ob"
  by (simp_all add: filled_def)

lemma match_loop_inv:
  "match_inv inc ob \<Longrightarrow> match_inv inc (snd (match_loop buy inc i ob trades))"
proof (induction buy inc i ob trades rule: match_loop_induct)
  case (stop buy inc i ob trades)
  then show ?case by (simp add: match_loop_stop)
next
  case (remove buy inc i ob trades)
  have i: "i < length (resting buy (filled buy inc i ob))"
    using remove.hyps(1) by (simp add: can_match_def)
  have "match_inv inc (filled buy inc i ob)" using remove.prems by simp
  from match_inv_remove [OF this i]
  show ?case
    unfolding match_loop_remove [OF remove.hyps(1,2)]
    by (intro remove.IH) simp
next
  case (keep buy inc i ob trades)
  show ?case
    unfolding match_loop_keep [OF keep.hyps(1,2)]
    by (intro keep.IH) (use keep.prems in simp)
qed

subsection \<open>Every call keeps the book consistent\<close>

lemma addBid_inv:
  assumes "match_inv inc ob" and "Side (mem ob inc) = ''buy''"
  shows "book_inv (addBid ob inc)"
proof -
  define k where "k = Search (length (Bids ob)) (\<lambda>j. Price (mem ob (Bids ob ! j)) \<le> Price (mem ob inc))"
  have kl: "k \<le> length (Bids ob)" unfolding k_def by (rule Search_le_length)
  have ab: "addBid ob inc = ob\<lparr>Bids := insert_at k inc (Bids ob)\<rparr>"
    by (simp add: addBid_def k_def)
  note b = assms(1) [unfolded match_inv_def book_inv_def]
  have s: "set (insert_at k inc (Bids ob)) = insert inc (set (Bids ob))"
    using kl by (rule set_insert_at)
  have d: "distinct (insert_at k inc (Bids ob))"
    using b by (intro distinct_insert_at) auto
  have so: "sorted_wrt (\<lambda>p q. Price (mem ob p) \<ge> Price (mem ob q)) (insert_at k inc (Bids ob))"
    unfolding k_def
    using insert_at_sorted_desc [of "\<lambda>p. Price (mem ob p)" "Bids ob" inc] b by simp
  show ?thesis
    unfolding ab book_inv_def using b d s so assms(2) by auto
qed

lemma addAsk_inv:
  assumes "match_inv inc ob" and "Side (mem ob inc) \<noteq> ''buy''"
  shows "book_inv (addAsk ob inc)"
proof -
  define k where "k = Search (length (Asks ob)) (\<lambda>j. Price (mem ob (Asks ob ! j)) \<ge> Price (mem ob inc))"
  have kl: "k \<le> length (Asks ob)" unfolding k_def by (rule Search_le_length)
  have ab: "addAsk ob inc = ob\<lparr>Asks := insert_at k inc (Asks ob)\<rparr>"
    by (simp add: addAsk_def k_def)
  note b = assms(1) [unfolded match_inv_def book_inv_def]
  have s: "set (insert_at k inc (Asks ob)) = insert inc (set (Asks ob))"
    using kl by (rule set_insert_at)
  have d: "distinct (insert_at k inc (Asks ob))"
    using b by (intro distinct_insert_at) auto
  have so: "sorted_wrt (\<lambda>p q. Price (mem ob p) \<le> Price (mem ob q)) (insert_at k inc (Asks ob))"
    unfolding k_def
    using insert_at_sorted_asc [of "\<lambda>p. Price (mem ob p)" "Asks ob" inc] b by simp
  show ?thesis
    unfolding ab book_inv_def using b d s so assms(2) by auto
qed

lemma match_inv_index:
  assumes "book_inv ob" and "Orders ob (ID (mem ob inc)) = None"
  shows "match_inv inc (ob\<lparr>Orders := (Orders ob)(ID (mem ob inc) \<mapsto> inc)\<rparr>)"
proof -
  note b = assms(1) [unfolded book_inv_def]
  have ids: "\<And>p. p \<in> set (Bids ob @ Asks ob) \<Longrightarrow> ID (mem ob p) \<noteq> ID (mem ob inc)"
  proof
    fix p assume "p \<in> set (Bids ob @ Asks ob)" and e: "ID (mem ob p) = ID (mem ob inc)"
    then have "Orders ob (ID (mem ob p)) = Some p" using b by blast
    then show False using assms(2) unfolding e by simp
  qed
  then have "inc \<notin> set (Bids ob @ Asks ob)" by blast
  then show ?thesis
    unfolding match_inv_def book_inv_def using b ids by auto
qed

lemma match_inv_book_inv: "match_inv inc ob \<Longrightarrow> book_inv ob"
  by (simp add: match_inv_def)

lemma AddOrder_inv:
  assumes "book_inv ob"
  shows "book_inv (snd (AddOrder ob inc))"
proof (cases "Symbol (mem ob inc) \<noteq> symbol ob \<or> Type (mem ob inc) \<noteq> ''limit''
              \<or> Orders ob (ID (mem ob inc)) \<noteq> None")
  case True
  then have "snd (AddOrder ob inc) = ob" by (auto simp: AddOrder_def)
  then show ?thesis using assms by simp
next
  case False
  define ob1 where "ob1 = ob\<lparr>Orders := (Orders ob)(ID (mem ob inc) \<mapsto> inc)\<rparr>"
  define ob2 where "ob2 = snd (matchOrder ob1 inc)"
  have "match_inv inc ob1" unfolding ob1_def using assms False by (intro match_inv_index) simp_all
  then have m2: "match_inv inc ob2" unfolding ob2_def matchOrder_def by (rule match_loop_inv)
  have "snd (AddOrder ob inc) =
          (if Quantity (mem ob2 inc) > 0
           then (if Side (mem ob2 inc) = ''buy'' then addBid ob2 inc else addAsk ob2 inc)
           else ob2)"
    using False by (simp add: AddOrder_def Let_def ob1_def [symmetric] ob2_def split: prod.splits)
  then show ?thesis
    using m2 by (simp add: addBid_inv addAsk_inv match_inv_book_inv)
qed

lemma remove_by_id_remove1:
  assumes "\<forall>p \<in> set xs. (ID (m p) = orderID) = (p = order)"
  shows "remove_by_id m orderID xs = remove1 order xs"
  using assms by (induction xs) auto

lemma filter_absent: "x \<notin> set xs \<Longrightarrow> filter (\<lambda>q. q \<noteq> x) xs = xs"
  by (induction xs) auto

lemma remove1_filter: "distinct xs \<Longrightarrow> remove1 x xs = filter (\<lambda>q. q \<noteq> x) xs"
  by (induction xs) (auto simp: filter_absent)

lemma book_inv_same_id:
  assumes "book_inv ob" and "Orders ob orderID = Some order"
    and "p \<in> set (Bids ob @ Asks ob)"
  shows "(ID (mem ob p) = orderID) = (p = order)"
proof
  assume e: "ID (mem ob p) = orderID"
  have "Orders ob (ID (mem ob p)) = Some p" using assms(1,3) unfolding book_inv_def by blast
  then show "p = order" using assms(2) unfolding e by simp
next
  assume "p = order"
  then show "ID (mem ob p) = orderID" using assms(1,2) unfolding book_inv_def by blast
qed

lemma CancelOrder_found:
  assumes inv: "book_inv ob" and found: "Orders ob orderID = Some order"
  shows "CancelOrder ob orderID =
           (Inr order, ob\<lparr>Orders := (Orders ob)(orderID := None),
                         Bids := filter (\<lambda>q. q \<noteq> order) (Bids ob),
                         Asks := filter (\<lambda>q. q \<noteq> order) (Asks ob)\<rparr>)"
proof -
  note b = inv [unfolded book_inv_def]
  have db: "distinct (Bids ob)" and da: "distinct (Asks ob)" using b by simp_all
  have rb: "remove_by_id (mem ob) orderID (Bids ob) = filter (\<lambda>q. q \<noteq> order) (Bids ob)"
    using remove_by_id_remove1 [of "Bids ob" "mem ob" orderID order]
      book_inv_same_id [OF inv found] remove1_filter [OF db] by simp
  have ra: "remove_by_id (mem ob) orderID (Asks ob) = filter (\<lambda>q. q \<noteq> order) (Asks ob)"
    using remove_by_id_remove1 [of "Asks ob" "mem ob" orderID order]
      book_inv_same_id [OF inv found] remove1_filter [OF da] by simp
  show ?thesis
  proof (cases "Side (mem ob order) = ''buy''")
    case True
    then have "order \<notin> set (Asks ob)" using b by auto
    then have "filter (\<lambda>q. q \<noteq> order) (Asks ob) = Asks ob" by (rule filter_absent)
    then show ?thesis using True found by (simp add: CancelOrder_def rb)
  next
    case False
    then have "order \<notin> set (Bids ob)" using b by auto
    then have "filter (\<lambda>q. q \<noteq> order) (Bids ob) = Bids ob" by (rule filter_absent)
    then show ?thesis using False found by (simp add: CancelOrder_def ra)
  qed
qed

lemma CancelOrder_inv:
  assumes "book_inv ob"
  shows "book_inv (snd (CancelOrder ob orderID))"
proof (cases "Orders ob orderID")
  case None
  then show ?thesis using assms by (simp add: CancelOrder_def)
next
  case (Some order)
  note b = assms [unfolded book_inv_def]
  have ids: "\<And>p. p \<in> set (Bids ob @ Asks ob) \<Longrightarrow> p \<noteq> order \<Longrightarrow> ID (mem ob p) \<noteq> orderID"
    using book_inv_same_id [OF assms Some] by blast
  have d: "distinct (filter (\<lambda>q. q \<noteq> order) (Bids ob) @ filter (\<lambda>q. q \<noteq> order) (Asks ob))"
    using b by auto
  have s1: "sorted_wrt (\<lambda>p q. Price (mem ob p) \<ge> Price (mem ob q)) (filter (\<lambda>q. q \<noteq> order) (Bids ob))"
    using b by (intro sorted_wrt_filter) simp
  have s2: "sorted_wrt (\<lambda>p q. Price (mem ob p) \<le> Price (mem ob q)) (filter (\<lambda>q. q \<noteq> order) (Asks ob))"
    using b by (intro sorted_wrt_filter) simp
  show ?thesis
    unfolding CancelOrder_found [OF assms Some] book_inv_def
    using b d s1 s2 ids by (auto split: if_splits)
qed

lemma NewOrderBook_inv: "book_inv (NewOrderBook m name)"
  by (simp add: book_inv_def NewOrderBook_def)

lemma book_step_inv: "book_inv ob \<Longrightarrow> book_inv (book_step ob c)"
  by (cases c) (simp_all add: AddOrder_inv CancelOrder_inv)

lemma book_run_inv: "book_inv ob \<Longrightarrow> book_inv (book_run ob calls)"
  unfolding book_run_def
  by (induction calls arbitrary: ob) (simp_all add: book_step_inv)

lemma reachable_inv: "book_inv (book_run (NewOrderBook m name) calls)"
  by (rule book_run_inv) (rule NewOrderBook_inv)

subsection \<open>The trades of a match\<close>

lemma expected_trades_exhausted [simp]:
  "remaining \<le> 0 \<Longrightarrow> expected_trades buy name taker price remaining rs = []"
  by (cases rs) simp_all






subsection \<open>Where a new order is inserted\<close>

text \<open>
  On a side that is sorted by price, \<open>addBid\<close> and \<open>addAsk\<close> put the new order behind the
  resting orders with a strictly better price and in front of all others, those of its
  own price included.
\<close>

lemma Search_position_desc:
  fixes key :: "'a \<Rightarrow> real"
  assumes "sorted_wrt (\<lambda>p q. key p \<ge> key q) xs"
    and "k = Search (length xs) (\<lambda>j. key (xs ! j) \<le> key x)"
  shows "k \<le> length xs \<and> (\<forall>y \<in> set (take k xs). key y > key x)
         \<and> (\<forall>y \<in> set (drop k xs). key y \<le> key x)"
proof -
  define n where "n = length xs"
  define f where "f = (\<lambda>j. key (xs ! j) \<le> key x)"
  have k: "k = Search n f" by (simp add: assms(2) n_def f_def)
  have nth: "\<And>a b. a < b \<Longrightarrow> b < n \<Longrightarrow> key (xs ! a) \<ge> key (xs ! b)"
    using assms(1) unfolding n_def by (simp add: sorted_wrt_iff_nth_less)
  have mono: "\<forall>a b. a \<le> b \<and> b < n \<and> f a \<longrightarrow> f b"
  proof (intro allI impI)
    fix a b assume h: "a \<le> b \<and> b < n \<and> f a"
    show "f b"
    proof (cases "a = b")
      case True with h show ?thesis by simp
    next
      case False
      with h have "a < b" by simp
      then have "key (xs ! b) \<le> key (xs ! a)" using nth h by simp
      with h show ?thesis unfolding f_def by simp
    qed
  qed
  note sp = Search_spec [OF mono, folded k]
  have kn: "k \<le> n" using sp by simp
  have before: "\<forall>y \<in> set (take k xs). key y > key x"
  proof
    fix y assume "y \<in> set (take k xs)"
    then obtain a where a: "a < k" "y = xs ! a"
      using kn unfolding n_def by (auto simp: in_set_conv_nth)
    then have "\<not> f a" using sp by simp
    then show "key y > key x" using a unfolding f_def by simp
  qed
  have after: "\<forall>y \<in> set (drop k xs). key y \<le> key x"
  proof
    fix y assume "y \<in> set (drop k xs)"
    then obtain b where b: "b < n - k" "y = xs ! (k + b)"
      using kn unfolding n_def by (auto simp: in_set_conv_nth)
    then have "f (k + b)" using sp by simp
    then show "key y \<le> key x" using b unfolding f_def by simp
  qed
  show ?thesis using kn before after unfolding n_def by blast
qed

lemma addBid_position:
  assumes "sorted_wrt (\<lambda>p q. Price (mem ob p) \<ge> Price (mem ob q)) (Bids ob)"
  shows "\<exists>k \<le> length (Bids ob).
           Bids (addBid ob order) = take k (Bids ob) @ order # drop k (Bids ob)
           \<and> (\<forall>q \<in> set (take k (Bids ob)). Price (mem ob q) > Price (mem ob order))
           \<and> (\<forall>q \<in> set (drop k (Bids ob)). Price (mem ob q) \<le> Price (mem ob order))"
proof -
  define k where "k = Search (length (Bids ob)) (\<lambda>j. Price (mem ob (Bids ob ! j)) \<le> Price (mem ob order))"
  note p = Search_position_desc [of "\<lambda>p. Price (mem ob p)" "Bids ob" k order, OF assms k_def]
  have "Bids (addBid ob order) = take k (Bids ob) @ order # drop k (Bids ob)"
    by (simp add: addBid_def k_def insert_at_def Let_def)
  with p show ?thesis by blast
qed

lemma addAsk_position:
  assumes "sorted_wrt (\<lambda>p q. Price (mem ob p) \<le> Price (mem ob q)) (Asks ob)"
  shows "\<exists>k \<le> length (Asks ob).
           Asks (addAsk ob order) = take k (Asks ob) @ order # drop k (Asks ob)
           \<and> (\<forall>q \<in> set (take k (Asks ob)). Price (mem ob q) < Price (mem ob order))
           \<and> (\<forall>q \<in> set (drop k (Asks ob)). Price (mem ob q) \<ge> Price (mem ob order))"
proof -
  define k where "k = Search (length (Asks ob)) (\<lambda>j. Price (mem ob (Asks ob ! j)) \<ge> Price (mem ob order))"
  have s: "sorted_wrt (\<lambda>p q. - Price (mem ob p) \<ge> - Price (mem ob q)) (Asks ob)"
    using assms by simp
  have k': "k = Search (length (Asks ob)) (\<lambda>j. - Price (mem ob (Asks ob ! j)) \<le> - Price (mem ob order))"
    by (simp add: k_def)
  note p = Search_position_desc [of "\<lambda>p. - Price (mem ob p)" "Asks ob" k order, OF s k']
  have e: "Asks (addAsk ob order) = take k (Asks ob) @ order # drop k (Asks ob)"
    by (simp add: addAsk_def k_def insert_at_def Let_def)
  have "k \<le> length (Asks ob)
        \<and> (\<forall>q \<in> set (take k (Asks ob)). Price (mem ob q) < Price (mem ob order))
        \<and> (\<forall>q \<in> set (drop k (Asks ob)). Price (mem ob q) \<ge> Price (mem ob order))"
    using p by simp
  with e show ?thesis by blast
qed

subsection \<open>The claims about the book\<close>

text \<open>
  Claim C1, time priority at equal price, at a failing input. Into the empty book go the
  bid 1 (price 100, quantity 1) and then the bid 2 (price 100, quantity 2). \<open>addBid\<close>
  searches for the first resting bid with \<open>Price <= order.Price\<close> and inserts there, which
  is in front of bid 1: the later bid stands first, and the sell order 3 (price 99,
  quantity 1.5) trades with bid 2 alone.
\<close>

theorem time_priority_failing_input:
  "Bids two_bids_book = [2, 1]
   \<and> fst (AddOrder two_bids_book 3) =
       Inr [\<lparr>TakerOrderID = 3, MakerOrderID = 2, trade_Symbol = ''BTC-USD'',
             trade_Price = 100, trade_Quantity = 3 / 2\<rparr>]"
  by code_simp

text \<open>
  Claim C3, the structural invariant, at a failing input. The ask 4 (price 100,
  quantity 1) rests; the buy order 5 (price 101, quantity 1) is written to the index,
  fills completely against it and is therefore added to no side, yet its index entry
  stays: the index holds an id that is in neither collection.
\<close>

theorem filled_taker_stays_in_index:
  "fst (AddOrder one_ask_book 5) =
       Inr [\<lparr>TakerOrderID = 5, MakerOrderID = 4, trade_Symbol = ''BTC-USD'',
             trade_Price = 100, trade_Quantity = 1\<rparr>]
   \<and> Orders (snd (AddOrder one_ask_book 5)) 5 = Some 5
   \<and> Bids (snd (AddOrder one_ask_book 5)) = []
   \<and> Asks (snd (AddOrder one_ask_book 5)) = []"
  by code_simp

text \<open>
  Claim C7: \<open>AddOrder\<close> returns an error exactly when the order's symbol is not the
  book's, or its type is not "limit", or its id is already in the index; and whenever
  it returns an error the whole state (both sides, the index and the orders pointed to)
  is what it was.
\<close>

theorem AddOrder_error_iff:
  "((\<exists>e. fst (AddOrder ob order) = Inl e) \<longleftrightarrow>
      (Symbol (mem ob order) \<noteq> symbol ob \<or> Type (mem ob order) \<noteq> ''limit''
       \<or> Orders ob (ID (mem ob order)) \<noteq> None))
   \<and> ((\<exists>e. fst (AddOrder ob order) = Inl e) \<longrightarrow> snd (AddOrder ob order) = ob)"
  by (auto simp: AddOrder_def Let_def split: prod.splits)

theorem AddOrder_error_iff_witness:
  "fst (AddOrder two_bids_book 2) = Inl AlreadyExists
   \<and> Orders two_bids_book (ID (mem two_bids_book 2)) \<noteq> None
   \<and> snd (AddOrder two_bids_book 2) = two_bids_book"
proof -
  have idx: "Orders two_bids_book (ID (mem two_bids_book 2)) \<noteq> None"
    by code_simp
  have "\<exists>e. fst (AddOrder two_bids_book 2) = Inl e"
    using AddOrder_error_iff [of two_bids_book 2] idx by blast
  moreover have "fst (AddOrder two_bids_book 2) = Inl AlreadyExists"
    by code_simp
  ultimately show ?thesis
    using AddOrder_error_iff [of two_bids_book 2] idx by blast
qed

text \<open>
  Claim C6. In a consistent book (every book reached from a new one is consistent, by
  \<open>reachable_inv\<close>), \<open>CancelOrder\<close> of an id that is not in the index fails with "order not
  found in book" and returns the state as it was, so the depth is the same; for an id in
  the index it returns the indexed order, takes the id out of the index and the order
  out of the sides, keeps every other resting order in place, and does not write to any
  order: the order returned is the order as it was before the call.
\<close>

theorem CancelOrder_outcomes:
  assumes "book_inv ob"
  shows "(Orders ob orderID = None \<longrightarrow>
            CancelOrder ob orderID = (Inl NotFoundInBook, ob)
            \<and> GetDepth (snd (CancelOrder ob orderID)) = GetDepth ob)
       \<and> (\<forall>order. Orders ob orderID = Some order \<longrightarrow>
            fst (CancelOrder ob orderID) = Inr order
            \<and> Orders (snd (CancelOrder ob orderID)) = (Orders ob)(orderID := None)
            \<and> Bids (snd (CancelOrder ob orderID)) = filter (\<lambda>q. q \<noteq> order) (Bids ob)
            \<and> Asks (snd (CancelOrder ob orderID)) = filter (\<lambda>q. q \<noteq> order) (Asks ob)
            \<and> mem (snd (CancelOrder ob orderID)) = mem ob
            \<and> symbol (snd (CancelOrder ob orderID)) = symbol ob
            \<and> ID (mem ob order) = orderID)"
proof (intro conjI impI allI)
  assume "Orders ob orderID = None"
  then show "CancelOrder ob orderID = (Inl NotFoundInBook, ob)"
    by (simp add: CancelOrder_def)
  then show "GetDepth (snd (CancelOrder ob orderID)) = GetDepth ob" by simp
next
  fix order assume f: "Orders ob orderID = Some order"
  note c = CancelOrder_found [OF assms f]
  show "fst (CancelOrder ob orderID) = Inr order" by (simp add: c)
  show "Orders (snd (CancelOrder ob orderID)) = (Orders ob)(orderID := None)" by (simp add: c)
  show "Bids (snd (CancelOrder ob orderID)) = filter (\<lambda>q. q \<noteq> order) (Bids ob)" by (simp add: c)
  show "Asks (snd (CancelOrder ob orderID)) = filter (\<lambda>q. q \<noteq> order) (Asks ob)" by (simp add: c)
  show "mem (snd (CancelOrder ob orderID)) = mem ob" by (simp add: c)
  show "symbol (snd (CancelOrder ob orderID)) = symbol ob" by (simp add: c)
  show "ID (mem ob order) = orderID" using assms f unfolding book_inv_def by blast
qed

lemma two_bids_book_run:
  "two_bids_book = book_run (NewOrderBook example_mem ''BTC-USD'') [Add 1, Add 2]"
  by (simp add: two_bids_book_def empty_book_def book_run_def)


theorem CancelOrder_outcomes_witness:
  "book_inv two_bids_book
   \<and> Orders two_bids_book 9 = None
   \<and> CancelOrder two_bids_book 9 = (Inl NotFoundInBook, two_bids_book)
   \<and> Orders two_bids_book 1 = Some 1
   \<and> fst (CancelOrder two_bids_book 1) = Inr 1
   \<and> Bids (snd (CancelOrder two_bids_book 1)) = [2]
   \<and> Asks (snd (CancelOrder two_bids_book 1)) = []
   \<and> Orders (snd (CancelOrder two_bids_book 1)) 1 = None
   \<and> mem (snd (CancelOrder two_bids_book 1)) 1 = limit_order 1 ''buy'' 100 1"
proof -
  have inv: "book_inv two_bids_book"
    unfolding two_bids_book_run by (rule reachable_inv)
  note t = CancelOrder_outcomes [OF inv]
  have n: "Orders two_bids_book 9 = None" by code_simp
  have s: "Orders two_bids_book 1 = Some 1" by code_simp
  have b: "Bids two_bids_book = [2, 1]" by code_simp
  have a: "Asks two_bids_book = []" by code_simp
  have m: "mem two_bids_book 1 = limit_order 1 ''buy'' 100 1" by code_simp
  from t [of 9] n have 1: "CancelOrder two_bids_book 9 = (Inl NotFoundInBook, two_bids_book)"
    by blast
  from t [of 1] s have 2: "fst (CancelOrder two_bids_book 1) = Inr 1"
    and 3: "Bids (snd (CancelOrder two_bids_book 1)) = filter (\<lambda>q. q \<noteq> 1) (Bids two_bids_book)"
    and 4: "Asks (snd (CancelOrder two_bids_book 1)) = filter (\<lambda>q. q \<noteq> 1) (Asks two_bids_book)"
    and 5: "Orders (snd (CancelOrder two_bids_book 1)) = (Orders two_bids_book)(1 := None)"
    and 6: "mem (snd (CancelOrder two_bids_book 1)) = mem two_bids_book"
    by blast+
  show ?thesis using inv n s 1 2 3 4 5 6 m by (simp add: b a)
qed



subsection \<open>Depth\<close>















section \<open>Properties of the order handlers\<close>





text \<open>A market buy is turned away before any statement runs: the tables are as they were.\<close>

lemma market_buy_rejected:
  assumes "req_Side (normalised req0) = ''buy''" and "req_Type (normalised req0) \<noteq> ''limit''"
  shows "snd (handlers_CreateOrder db (Some userID) (Some req0) newID) = db
       \<and> (\<forall>order. fst (handlers_CreateOrder db (Some userID) (Some req0) newID)
                      \<noteq> JSONOrder StatusCreated order)"
  using assms by (simp add: handlers_CreateOrder_def Let_def normalised_def)




section \<open>Properties of the settlement\<close>

lemma processTrades_unchanged: "processTrades db trades = db"
  unfolding processTrades_def by (induction trades) simp_all


end
